theory Spec2Isabelle
  imports Complex_Main "HOL-Library.AList"
begin

section \<open>The score store: class MCPIntegration of agents_excel.py\<close>

text \<open>
  A Python float is the rational number that the double is exactly, so comparisons are
  the exact ones. A float operation returns the double nearest to its exact result, ties
  to the even significand (\<open>to_double\<close> below). NaN and the infinities are left out:
  \<open>update_score\<close> rejects them, the scores it keeps lie between 0 and 1, and a sum of
  scores is bounded by the number of agents. The score's guard and store are stated for
  every rational, hence for every double. A Python \<open>dict\<close> whose iteration order the
  code uses is an association list with distinct keys: \<open>AList.update\<close> keeps the
  position of a key already present and appends a new key at the end, as assignment to a
  \<open>dict\<close> does. The outer dictionary, which the code only indexes, is a map.
\<close>

type_synonym claim_id = string
type_synonym agent = string
type_synonym meta = "(string \<times> string) list"

subsection \<open>Doubles\<close>

text \<open>Rounding of an exact value to the nearest integer, ties to the even one.\<close>

definition round_half_even :: "rat \<Rightarrow> int" where
  "round_half_even x =
     (let f = \<lfloor>x\<rfloor>; d = x - of_int f
      in if d < 1 / 2 then f else if 1 / 2 < d then f + 1 else if even f then f else f + 1)"

text \<open>The number of binary digits of a positive integer, and the powers of two.\<close>

function bitlen :: "int \<Rightarrow> int" where
  "bitlen n = (if 0 < n then bitlen (n div 2) + 1 else 0)"
  by auto

termination
  by (relation "measure nat") auto

declare bitlen.simps [simp del]

definition pow2 :: "int \<Rightarrow> rat" where
  "pow2 e = (if 0 \<le> e then 2 ^ nat e else 1 / 2 ^ nat (- e))"

text \<open>
  The binary exponent of a positive rational \<open>a\<close>, that is the \<open>e\<close> with
  \<open>2 ^ e \<le> a < 2 ^ (e + 1)\<close>: the difference of the bit lengths of numerator and
  denominator, or one less.
\<close>

definition exponent :: "rat \<Rightarrow> int" where
  "exponent a =
     (let e = bitlen (fst (quotient_of a)) - bitlen (snd (quotient_of a))
      in if pow2 e \<le> a then e else e - 1)"

text \<open>
  The double nearest to a rational: 53 significant bits, ties to the even significand,
  and the fixed spacing \<open>2 ^ - 1074\<close> of the subnormal range below \<open>2 ^ - 1022\<close>.
\<close>

definition to_double :: "rat \<Rightarrow> rat" where
  "to_double x =
     (if x = 0 then 0
      else (let a = \<bar>x\<bar>;
                e = max (exponent a) (- 1022);
                ulp = pow2 (e - 52)
            in sgn x * of_int (round_half_even (a / ulp)) * ulp))"

definition fadd :: "rat \<Rightarrow> rat \<Rightarrow> rat" where
  "fadd a b = to_double (a + b)"

definition fsub :: "rat \<Rightarrow> rat \<Rightarrow> rat" where
  "fsub a b = to_double (a - b)"

definition fdiv :: "rat \<Rightarrow> rat \<Rightarrow> rat" where
  "fdiv a b = to_double (a / b)"

text \<open>
  Python's \<open>round(x, 2)\<close> on a float: the exact value of the double is rounded to two
  decimals, ties to the even digit, and the decimal is converted back to the nearest
  double.
\<close>

definition py_round2 :: "rat \<Rightarrow> rat" where
  "py_round2 x = to_double (of_int (round_half_even (x * 100)) / 100)"

text \<open>
  The builtin \<open>sum\<close> is not part of the repository and its algorithm on floats depends
  on the interpreter: CPython before 3.12 adds from left to right, starting from the
  integer 0; CPython 3.12 and later carry Neumaier's compensation term and add it at the
  end. \<open>get_consensus\<close> takes the builtin as a parameter; these are its two forms.
\<close>

definition sum_left_to_right :: "rat list \<Rightarrow> rat" where
  "sum_left_to_right xs = foldl fadd 0 xs"

fun neumaier :: "rat \<Rightarrow> rat \<Rightarrow> rat list \<Rightarrow> rat" where
  "neumaier f c [] = (if c \<noteq> 0 then fadd f c else f)"
| "neumaier f c (x # xs) =
     (let t = fadd f x
      in neumaier t
           (fadd c (if \<bar>x\<bar> \<le> \<bar>f\<bar> then fadd (fsub f t) x else fadd (fsub x t) f)) xs)"

definition sum_compensated :: "rat list \<Rightarrow> rat" where
  "sum_compensated xs = (case xs of [] \<Rightarrow> 0 | x # xs' \<Rightarrow> neumaier (to_double x) 0 xs')"

subsection \<open>The store\<close>

text \<open>
  class Config: the two constants read by \<open>get_consensus\<close>. The literal \<open>0.7\<close> denotes
  the double nearest to seven tenths.
\<close>

definition FRAUD_THRESHOLD :: rat where
  "FRAUD_THRESHOLD = to_double (7 / 10)"

definition CONSENSUS_THRESHOLD :: nat where
  "CONSENSUS_THRESHOLD = 3"

text \<open>The value stored under \<open>self.scores[claim_id][agent]\<close>.\<close>

record score_entry =
  score :: rat
  timestamp :: string
  metadata :: meta

text \<open>One element of \<open>self.history\<close>; its metadata is the argument as passed (maybe None).\<close>

record history_entry =
  h_claim_id :: claim_id
  h_agent :: agent
  h_score :: rat
  h_timestamp :: string
  h_metadata :: "meta option"

record MCPIntegration =
  scores :: "claim_id \<rightharpoonup> (agent \<times> score_entry) list"
  history :: "history_entry list"

text \<open>\<open>__init__\<close>: both containers empty.\<close>

definition mcp_init :: MCPIntegration where
  "mcp_init = \<lparr>scores = Map.empty, history = []\<rparr>"

datatype error = ValueError

text \<open>The guard of \<open>update_score\<close>: \<open>if not 0 <= score <= 1: raise ValueError\<close>.\<close>

definition check_score :: "rat \<Rightarrow> error + unit" where
  "check_score s = (if \<not> (0 \<le> s \<and> s \<le> 1) then Inl ValueError else Inr ())"

text \<open>
  \<open>update_score\<close>: the ValueError is caught by the function's own \<open>except Exception\<close>,
  which returns False; otherwise the entry of the agent is overwritten (the inner
  dictionary being created when the claim is new), one history element is appended, and
  True is returned. \<open>now\<close> is the reading of \<open>datetime.now().isoformat()\<close>.
\<close>

definition update_score ::
  "claim_id \<Rightarrow> agent \<Rightarrow> rat \<Rightarrow> meta option \<Rightarrow> string \<Rightarrow> MCPIntegration
     \<Rightarrow> bool \<times> MCPIntegration" where
  "update_score cid ag s md now mcp =
     (case check_score s of
        Inl e \<Rightarrow> (False, mcp)
      | Inr u \<Rightarrow>
          (let inner = (case scores mcp cid of None \<Rightarrow> [] | Some d \<Rightarrow> d);
               entry = \<lparr>score = s, timestamp = now,
                        metadata = (case md of None \<Rightarrow> [] | Some m \<Rightarrow> m)\<rparr>;
               hist = \<lparr>h_claim_id = cid, h_agent = ag, h_score = s,
                       h_timestamp = now, h_metadata = md\<rparr>
           in (True, mcp\<lparr>scores := (scores mcp)(cid \<mapsto> AList.update ag entry inner),
                         history := history mcp @ [hist]\<rparr>)))"

text \<open>The dictionary returned by \<open>get_consensus\<close> when the claim is known.\<close>

record consensus_detail =
  d_scores :: "(agent \<times> rat) list"
  average_score :: rat
  max_score :: rat
  fraud_count :: nat
  agent_details :: "(agent \<times> score_entry) list"

text \<open>
  \<open>get_consensus\<close>: the empty dictionary \<open>{}\<close> is \<open>None\<close>. Both the average and the
  maximum are guarded by \<open>if simple_scores else 0\<close>, and both go through
  \<open>round(_, 2)\<close> in the result. The average is the float quotient of the builtin sum of
  the values, in the order of the dictionary, by their number, an integer that converts
  to a float exactly.
\<close>

definition get_consensus :: "(rat list \<Rightarrow> rat) \<Rightarrow> claim_id \<Rightarrow> MCPIntegration
    \<Rightarrow> bool \<times> consensus_detail option" where
  "get_consensus py_sum cid mcp =
     (case scores mcp cid of
        None \<Rightarrow> (False, None)
      | Some scores_data \<Rightarrow>
          (let simple_scores = map (\<lambda>(k, v). (k, score v)) scores_data;
               vals = map snd simple_scores;
               fc = length (filter (\<lambda>s. FRAUD_THRESHOLD \<le> s) vals);
               has_consensus = (CONSENSUS_THRESHOLD \<le> fc);
               avg = (if simple_scores \<noteq> []
                      then fdiv (py_sum vals) (of_nat (length simple_scores)) else 0);
               mx = (case vals of [] \<Rightarrow> 0 | v # vs \<Rightarrow> fold max vs v)
           in (has_consensus,
               Some \<lparr>d_scores = simple_scores, average_score = py_round2 avg,
                     max_score = py_round2 mx, fraud_count = fc,
                     agent_details = scores_data\<rparr>)))"

text \<open>The stores the program can build: \<open>update_score\<close> is the only writer.\<close>

inductive reachable_mcp :: "MCPIntegration \<Rightarrow> bool" where
  reach_init: "reachable_mcp mcp_init"
| reach_update: "reachable_mcp mcp \<Longrightarrow> reachable_mcp (snd (update_score cid ag s md now mcp))"

text \<open>The latest vote of an agent on a claim, read off the store.\<close>

definition latest :: "MCPIntegration \<Rightarrow> claim_id \<Rightarrow> agent \<rightharpoonup> rat" where
  "latest mcp cid ag =
     (case scores mcp cid of None \<Rightarrow> None | Some d \<Rightarrow> map_option score (map_of d ag))"

text \<open>
  The store of the example: the votes A 0.8, B 0.75, C 0.9 and D 0.2 on one claim, each
  the double that its literal denotes.
\<close>

definition example_votes :: MCPIntegration where
  "example_votes =
     snd (update_score ''CLM-001'' ''D'' (to_double (2 / 10)) None ''t4''
       (snd (update_score ''CLM-001'' ''C'' (to_double (9 / 10)) None ''t3''
         (snd (update_score ''CLM-001'' ''B'' (to_double (75 / 100)) None ''t2''
           (snd (update_score ''CLM-001'' ''A'' (to_double (8 / 10)) None ''t1''
              mcp_init)))))))"

section \<open>The notification hub: class ConnectionManager of backend/main.py\<close>

text \<open>
  An update is a dictionary with string keys. A websocket is known by its identity. What
  the transport answers at one send is a \<open>channel\<close>: the name of the socket's
  \<open>client_state\<close> and whether \<open>send_text\<close> raises. The frames that \<open>send_text\<close> has
  delivered are recorded, oldest first, in the component \<open>wire\<close>, which stands for the
  network side of the sockets; the other two components are the fields of the class.
\<close>

type_synonym task_id = string
type_synonym websocket = nat

datatype jvalue = JStr string | JInt int | JSeconds rat

type_synonym update = "(string \<times> jvalue) list"

record channel =
  client_state_name :: string
  send_raises :: bool

record ConnectionManager =
  active_connections :: "(task_id \<times> websocket) list"
  pending_updates :: "task_id \<rightharpoonup> update list"
  wire :: "(websocket \<times> update) list"

datatype ws_error = AcceptFailed | SendFailed

definition manager_init :: ConnectionManager where
  "manager_init = \<lparr>active_connections = [], pending_updates = Map.empty, wire = []\<rparr>"

text \<open>\<open>data.get('type')\<close>\<close>

definition get_type :: "update \<Rightarrow> jvalue option" where
  "get_type data = map_of data ''type''"

definition is_heartbeat :: "update \<Rightarrow> bool" where
  "is_heartbeat data = (get_type data = Some (JStr ''heartbeat''))"

text \<open>\<open>await websocket.send_text(json.dumps(data))\<close>: raises, or delivers one frame.\<close>

definition send_text :: "channel \<Rightarrow> websocket \<Rightarrow> update \<Rightarrow> ConnectionManager
    \<Rightarrow> ws_error + ConnectionManager" where
  "send_text ch ws data m =
     (if send_raises ch then Inl SendFailed else Inr (m\<lparr>wire := wire m @ [(ws, data)]\<rparr>))"

text \<open>
  The replay loop of \<open>connect\<close>: each pending update is sent inside its own
  \<open>try\<close>; the first send that raises ends the loop (\<open>break\<close>). \<open>chs i\<close> is the channel
  at the \<open>i\<close>-th send.
\<close>

fun replay :: "(nat \<Rightarrow> channel) \<Rightarrow> nat \<Rightarrow> websocket \<Rightarrow> update list \<Rightarrow> ConnectionManager
    \<Rightarrow> ConnectionManager" where
  "replay chs i ws [] m = m"
| "replay chs i ws (u # us) m =
     (case send_text (chs i) ws u m of
        Inl e \<Rightarrow> m
      | Inr m' \<Rightarrow> replay chs (Suc i) ws us m')"

text \<open>
  \<open>connect\<close>: \<open>websocket.accept()\<close> may raise, and then nothing is registered.
  Otherwise the socket is registered under the task, the pending updates of the task, if
  the key is present, are replayed, and the key is deleted after the loop, however the
  loop ended.
\<close>

definition connect :: "bool \<Rightarrow> (nat \<Rightarrow> channel) \<Rightarrow> websocket \<Rightarrow> task_id \<Rightarrow> ConnectionManager
    \<Rightarrow> ws_error + ConnectionManager" where
  "connect accept_ok chs ws tid m =
     (if \<not> accept_ok then Inl AcceptFailed
      else
        (let m1 = m\<lparr>active_connections := AList.update tid ws (active_connections m)\<rparr>
         in case pending_updates m1 tid of
              None \<Rightarrow> Inr m1
            | Some ups \<Rightarrow>
                (let m2 = replay chs 0 ws ups m1
                 in Inr (m2\<lparr>pending_updates := (pending_updates m2)(tid := None)\<rparr>))))"

definition disconnect :: "task_id \<Rightarrow> ConnectionManager \<Rightarrow> ConnectionManager" where
  "disconnect tid m =
     (if map_of (active_connections m) tid \<noteq> None
      then m\<lparr>active_connections := AList.delete tid (active_connections m)\<rparr>
      else m)"

text \<open>Python's \<open>xs[-10:]\<close>: the whole list when it has fewer than ten elements.\<close>

definition last10 :: "'a list \<Rightarrow> 'a list" where
  "last10 xs = drop (length xs - 10) xs"

text \<open>
  \<open>_store_pending_update\<close>: the list of the task is created when missing, also for a
  heartbeat; any other update is appended and the list cut to its last ten elements.
\<close>

definition store_pending_update :: "task_id \<Rightarrow> update \<Rightarrow> ConnectionManager \<Rightarrow> ConnectionManager" where
  "store_pending_update tid data m =
     (let ups = (case pending_updates m tid of None \<Rightarrow> [] | Some l \<Rightarrow> l)
      in if get_type data \<noteq> Some (JStr ''heartbeat'')
         then m\<lparr>pending_updates := (pending_updates m)(tid \<mapsto> last10 (ups @ [data]))\<rparr>
         else m\<lparr>pending_updates := (pending_updates m)(tid \<mapsto> ups)\<rparr>)"

text \<open>
  \<open>send_progress_update\<close>: with a registered socket the send is tried when the socket's
  state is CONNECTED; a socket in another state, and an exception of the send (caught by
  \<open>except Exception\<close>), both store the update and remove the registration. Without a
  registered socket the update is stored.
\<close>

definition send_progress_update :: "channel \<Rightarrow> task_id \<Rightarrow> update \<Rightarrow> ConnectionManager
    \<Rightarrow> ws_error + ConnectionManager" where
  "send_progress_update ch tid data m =
     (case map_of (active_connections m) tid of
        Some ws \<Rightarrow>
          (case (if client_state_name ch = ''CONNECTED'' then send_text ch ws data m
                 else Inr (disconnect tid (store_pending_update tid data m))) of
             Inl e \<Rightarrow> Inr (disconnect tid (store_pending_update tid data m))
           | Inr m' \<Rightarrow> Inr m')
      | None \<Rightarrow> Inr (store_pending_update tid data m))"

text \<open>
  \<open>broadcast_to_all\<close>: one pass over the registered sockets that sends where it can and
  collects the tasks where it cannot, then stores the update and removes the
  registration for each collected task. \<open>chs tid\<close> is the channel of the socket of \<open>tid\<close>.
\<close>

definition delivered_to :: "(task_id \<Rightarrow> channel) \<Rightarrow> task_id \<Rightarrow> bool" where
  "delivered_to chs tid =
     (client_state_name (chs tid) = ''CONNECTED'' \<and> \<not> send_raises (chs tid))"

definition broadcast_to_all :: "(task_id \<Rightarrow> channel) \<Rightarrow> update \<Rightarrow> ConnectionManager
    \<Rightarrow> ConnectionManager" where
  "broadcast_to_all chs data m =
     (let conns = active_connections m;
          sent = map (\<lambda>(tid, ws). (ws, data)) (filter (\<lambda>(tid, ws). delivered_to chs tid) conns);
          disconnected_tasks = map fst (filter (\<lambda>(tid, ws). \<not> delivered_to chs tid) conns)
      in fold (\<lambda>tid m'. disconnect tid (store_pending_update tid data m'))
           disconnected_tasks (m\<lparr>wire := wire m @ sent\<rparr>))"

text \<open>The states of the hub that calls of its methods can produce.\<close>

inductive reachable_hub :: "ConnectionManager \<Rightarrow> bool" where
  hub_init: "reachable_hub manager_init"
| hub_connect: "reachable_hub m \<Longrightarrow> connect accept_ok chs ws tid m = Inr m' \<Longrightarrow> reachable_hub m'"
| hub_disconnect: "reachable_hub m \<Longrightarrow> reachable_hub (disconnect tid m)"
| hub_send: "reachable_hub m \<Longrightarrow> send_progress_update ch tid data m = Inr m' \<Longrightarrow> reachable_hub m'"
| hub_broadcast: "reachable_hub m \<Longrightarrow> reachable_hub (broadcast_to_all chs data m)"

text \<open>A run of emissions for one task, each with the channel it meets.\<close>

fun emit_all :: "task_id \<Rightarrow> (channel \<times> update) list \<Rightarrow> ConnectionManager
    \<Rightarrow> ws_error + ConnectionManager" where
  "emit_all tid [] m = Inr m"
| "emit_all tid ((ch, u) # cus) m =
     (case send_progress_update ch tid u m of
        Inl e \<Rightarrow> Inl e
      | Inr m' \<Rightarrow> emit_all tid cus m')"

text \<open>A channel in working order, and the \<open>n\<close>-th progress update of the example.\<close>

definition open_channel :: channel where
  "open_channel = \<lparr>client_state_name = ''CONNECTED'', send_raises = False\<rparr>"

definition broken_channel :: channel where
  "broken_channel = \<lparr>client_state_name = ''CONNECTED'', send_raises = True\<rparr>"

definition progress_no :: "int \<Rightarrow> update" where
  "progress_no n = [(''type'', JStr ''progress''), (''task_id'', JStr ''T''), (''progress'', JInt n)]"

text \<open>The bound on every pending list, and the absence of heartbeats from it.\<close>

definition buffer_ok :: "ConnectionManager \<Rightarrow> bool" where
  "buffer_ok m = (\<forall>tid buf. pending_updates m tid = Some buf \<longrightarrow>
                    length buf \<le> 10 \<and> (\<forall>u\<in>set buf. \<not> is_heartbeat u))"

text \<open>
  A hub holding three pending updates for one task, and a transport whose second send
  raises.
\<close>

definition three_pending :: ConnectionManager where
  "three_pending =
     manager_init\<lparr>pending_updates := [''T'' \<mapsto> [progress_no 1, progress_no 2, progress_no 3]]\<rparr>"

definition second_send_fails :: "nat \<Rightarrow> channel" where
  "second_send_fails i = (if i = 1 then broken_channel else open_channel)"

section \<open>The task map and the worker: batch_tasks and process_excel_background\<close>

text \<open>
  An entry of \<open>batch_tasks\<close> is a dictionary; the keys that are added later are optional
  fields. \<open>upload_excel_file\<close> stores the entry before it schedules the worker, and nothing
  deletes entries, so the worker's \<open>batch_tasks[task_id]\<close> always finds it: the worker is
  modelled on the entry itself.
\<close>

record task =
  status :: string
  file_path :: string
  created_at :: string
  progress :: int
  output_path :: "string option"
  completed_at :: "string option"
  task_error :: "string option"
  processing_time :: "rat option"

text \<open>The entry that \<open>upload_excel_file\<close> stores under the fresh task id.\<close>

definition new_task :: "string \<Rightarrow> string \<Rightarrow> task" where
  "new_task path now =
     \<lparr>status = ''processing'', file_path = path, created_at = now, progress = 0,
      output_path = None, completed_at = None, task_error = None, processing_time = None\<rparr>"

text \<open>
  The four writes of the worker to the entry: the assignments to \<open>"status"\<close> and to
  \<open>"progress"\<close>, and the two \<open>update\<close> calls that end a run. None of them reads the
  entry first.
\<close>

definition set_status :: "string \<Rightarrow> task \<Rightarrow> task" where
  "set_status s t = t\<lparr>status := s\<rparr>"

definition set_progress :: "int \<Rightarrow> task \<Rightarrow> task" where
  "set_progress p t = t\<lparr>progress := p\<rparr>"

definition update_completed :: "string \<Rightarrow> string \<Rightarrow> rat \<Rightarrow> task \<Rightarrow> task" where
  "update_completed out now secs t =
     t\<lparr>status := ''completed'', output_path := Some out, completed_at := Some now,
       progress := 100, processing_time := Some secs\<rparr>"

definition update_failed :: "string \<Rightarrow> string \<Rightarrow> task \<Rightarrow> task" where
  "update_failed msg now t =
     t\<lparr>status := ''failed'', task_error := Some msg, completed_at := Some now\<rparr>"

text \<open>Python's \<open>str\<close> of an integer, for the formatted messages.\<close>

fun str_nat :: "nat \<Rightarrow> string" where
  "str_nat n =
     (if n < 10 then [''0123456789'' ! n]
      else str_nat (n div 10) @ [''0123456789'' ! (n mod 10)])"

declare str_nat.simps [simp del]


text \<open>The updates that the worker and the endpoint build.\<close>

definition progress_data :: "task_id \<Rightarrow> string \<Rightarrow> int \<Rightarrow> string \<Rightarrow> string \<Rightarrow> update" where
  "progress_data tid st p msg now =
     [(''type'', JStr ''progress''), (''task_id'', JStr tid), (''status'', JStr st),
      (''progress'', JInt p), (''message'', JStr msg), (''timestamp'', JStr now)]"

definition found_data :: "task_id \<Rightarrow> nat \<Rightarrow> string \<Rightarrow> update" where
  "found_data tid total_rows now =
     [(''type'', JStr ''progress''), (''task_id'', JStr tid), (''status'', JStr ''processing''),
      (''progress'', JInt 20),
      (''message'', JStr (''Found '' @ str_nat total_rows @ '' claims to process...'')),
      (''total_items'', JInt (int total_rows)), (''timestamp'', JStr now)]"

definition error_data :: "task_id \<Rightarrow> string \<Rightarrow> string \<Rightarrow> update" where
  "error_data tid msg now =
     [(''type'', JStr ''error''), (''task_id'', JStr tid), (''status'', JStr ''failed''),
      (''error'', JStr msg), (''timestamp'', JStr now)]"

definition completed_data :: "task_id \<Rightarrow> rat \<Rightarrow> string \<Rightarrow> string \<Rightarrow> update" where
  "completed_data tid secs out now =
     [(''type'', JStr ''completed''), (''task_id'', JStr tid), (''status'', JStr ''completed''),
      (''progress'', JInt 100),
      (''message'', JStr ''Batch processing completed successfully!''),
      (''processing_time'', JSeconds secs), (''output_path'', JStr out),
      (''timestamp'', JStr now)]"

text \<open>
  What the worker meets outside: whether the fraud system was built, the row count of
  the file (\<open>None\<close> when \<open>pd.read_excel\<close> raises), the result of
  \<open>fraud_system.process_excel\<close> (\<open>Inl\<close> the text of the exception), the measured
  seconds, and the readings of the clock.
\<close>

record worker_env =
  fraud_system_available :: bool
  read_excel :: "nat option"
  process_excel :: "string + string"
  processing_seconds :: rat
  clock :: "nat \<Rightarrow> string"

datatype step =
    Send update
  | SetStatus string
  | SetProgress int
  | UpdateCompleted string string rat
  | UpdateFailed string string

fun apply_step :: "step \<Rightarrow> task \<Rightarrow> task" where
  "apply_step (Send u) t = t"
| "apply_step (SetStatus s) t = set_status s t"
| "apply_step (SetProgress p) t = set_progress p t"
| "apply_step (UpdateCompleted out now secs) t = update_completed out now secs t"
| "apply_step (UpdateFailed msg now) t = update_failed msg now t"

definition processing_steps :: "(int \<times> string) list" where
  "processing_steps =
     [(30, ''Validating claim data...''), (40, ''Initializing AI agents...''),
      (50, ''Running fraud detection analysis...''), (70, ''Evaluating risk factors...''),
      (85, ''Generating recommendations...''), (95, ''Finalizing results...'')]"

definition unavailable_msg :: string where
  "unavailable_msg =
     ''Fraud detection system not available. Please check OpenAI API key configuration.''"

text \<open>
  \<open>process_excel_background\<close> as the sequence of its effects, in program order: the
  updates handed to \<open>manager.send_progress_update\<close> (which never raises) and the writes to
  the entry. A missing fraud system sends the error update and raises; the handler of
  the outer \<open>try\<close> sends the error update again and marks the entry failed. An
  exception of \<open>pd.read_excel\<close> is caught by the inner \<open>try\<close>. An exception of
  \<open>fraud_system.process_excel\<close> goes to the outer handler. Cancellation of the coroutine
  is not modelled.
\<close>

definition process_excel_background :: "worker_env \<Rightarrow> task_id \<Rightarrow> step list" where
  "process_excel_background env tid =
     [Send (progress_data tid ''starting'' 0 ''Initializing batch processing...'' (clock env 0)),
      SetStatus ''processing'',
      SetProgress 5] @
     (if \<not> fraud_system_available env
      then [Send (error_data tid unavailable_msg (clock env 1)),
            Send (error_data tid unavailable_msg (clock env 2)),
            UpdateFailed unavailable_msg (clock env 3)]
      else
        [Send (progress_data tid ''processing'' 10 ''Loading Excel file...'' (clock env 1)),
         (case read_excel env of
            Some total_rows \<Rightarrow> Send (found_data tid total_rows (clock env 2))
          | None \<Rightarrow> Send (progress_data tid ''processing'' 20 ''Processing Excel file...''
                           (clock env 2)))] @
        concat (map (\<lambda>((p, msg), i). [SetProgress p,
                                        Send (progress_data tid ''processing'' p msg (clock env i))])
                    (zip processing_steps [3 ..< 9])) @
        (case process_excel env of
           Inr out \<Rightarrow>
             [Send (completed_data tid (processing_seconds env) out (clock env 9)),
              UpdateCompleted out (clock env 10) (processing_seconds env)]
         | Inl msg \<Rightarrow>
             [Send (error_data tid msg (clock env 9)),
              UpdateFailed msg (clock env 10)]))"

text \<open>The entry before the first step and after each step of a run.\<close>

fun trace :: "step list \<Rightarrow> task \<Rightarrow> task list" where
  "trace [] t = [t]"
| "trace (s # ss) t = t # trace ss (apply_step s t)"

text \<open>An environment in which the run succeeds, and one in which processing raises.\<close>

definition good_env :: worker_env where
  "good_env = \<lparr>fraud_system_available = True, read_excel = Some 3,
                process_excel = Inr ''out.xlsx'', processing_seconds = 5 / 2,
                clock = (\<lambda>i. ''t'')\<rparr>"

definition bad_env :: worker_env where
  "bad_env = \<lparr>fraud_system_available = True, read_excel = Some 3,
               process_excel = Inl ''boom'', processing_seconds = 0,
               clock = (\<lambda>i. ''t'')\<rparr>"

section \<open>The observer endpoint: websocket_endpoint of backend/main.py\<close>








section \<open>Properties of the score store\<close>

subsection \<open>Doubles\<close>

text \<open>
  The exponent brackets its argument between two consecutive powers of two, so
  \<open>to_double\<close> rounds on the grid of 53 significant bits: the result is a multiple of
  the spacing, at most half the spacing away from the exact value.
\<close>

lemma pow2_powi: "pow2 e = 2 powi e"
  by (simp add: pow2_def power_int_def inverse_eq_divide power_one_over)

lemma pow2_pos: "0 < pow2 e"
  by (simp add: pow2_powi)

lemma pow2_diff: "pow2 (i - j) = pow2 i / pow2 j"
  by (simp add: pow2_powi power_int_diff)

lemma pow2_nat: "0 \<le> e \<Longrightarrow> pow2 e = 2 ^ nat e"
  by (simp add: pow2_def)

lemma pow2_mono: "i \<le> j \<Longrightarrow> pow2 i \<le> pow2 j"
  by (simp add: pow2_powi power_int_increasing)

lemma bitlen_nonneg: "0 \<le> bitlen n"
proof (induction n rule: bitlen.induct)
  case (1 n)
  then show ?case by (cases "0 < n") (simp_all add: bitlen.simps [of n])
qed

lemma bitlen_pos: "0 < n \<Longrightarrow> 1 \<le> bitlen n"
  using bitlen_nonneg [of "n div 2"] by (simp add: bitlen.simps [of n])

lemma bitlen_bounds:
  "0 < n \<Longrightarrow> 2 ^ nat (bitlen n - 1) \<le> n \<and> n < 2 ^ nat (bitlen n)"
proof (induction n rule: bitlen.induct)
  case (1 n)
  show ?case
  proof (cases "n = 1")
    case True
    have "bitlen 0 = 0" by (simp add: bitlen.simps [of 0])
    then have "bitlen 1 = 1" by (simp add: bitlen.simps [of 1])
    then show ?thesis using True by simp
  next
    case False
    with 1(2) have h: "0 < n div 2" by simp
    from 1(1) [OF 1(2) h] have IH: "2 ^ nat (bitlen (n div 2) - 1) \<le> n div 2"
       "n div 2 < 2 ^ nat (bitlen (n div 2))"
      by simp_all
    have bl: "bitlen n = bitlen (n div 2) + 1"
      using 1(2) by (simp add: bitlen.simps [of n])
    have pos: "1 \<le> bitlen (n div 2)"
      using h by (rule bitlen_pos)
    define k where "k = nat (bitlen (n div 2) - 1)"
    have k1: "nat (bitlen (n div 2)) = Suc k" using pos by (simp add: k_def)
    have k2: "nat (bitlen n - 1) = Suc k" "nat (bitlen n) = Suc (Suc k)"
      using pos by (simp_all add: bl k_def)
    from IH have a: "2 ^ k \<le> n div 2" and b: "n div 2 < 2 ^ Suc k"
      by (simp_all add: k1 flip: k_def)
    from a have "2 * 2 ^ k \<le> n" by linarith
    moreover from b have "n < 2 * 2 ^ Suc k" by linarith
    ultimately show ?thesis by (simp add: k2)
  qed
qed

lemma exponent_bounds:
  assumes "0 < a"
  shows "pow2 (exponent a) \<le> a \<and> a < pow2 (exponent a + 1)"
proof -
  obtain p q where pq: "quotient_of a = (p, q)" by (cases "quotient_of a")
  then have q: "0 < q" and a: "a = of_int p / of_int q"
    by (simp_all add: quotient_of_denom_pos quotient_of_div)
  from assms a q have p: "0 < p" by (simp add: zero_less_divide_iff)
  define bp where "bp = bitlen p"
  define bq where "bq = bitlen q"
  have bp1: "1 \<le> bp" and bq1: "1 \<le> bq"
    using p q by (simp_all add: bp_def bq_def bitlen_pos)
  from bitlen_bounds [OF p] have "(2::int) ^ nat (bp - 1) \<le> p" "p < 2 ^ nat bp"
    by (simp_all add: bp_def)
  then have "(of_int (2 ^ nat (bp - 1)) :: rat) \<le> of_int p" "(of_int p :: rat) < of_int (2 ^ nat bp)"
    by (simp_all only: of_int_le_iff of_int_less_iff)
  then have P: "pow2 (bp - 1) \<le> of_int p" "of_int p < pow2 bp"
    using bp1 by (simp_all add: pow2_nat)
  from bitlen_bounds [OF q] have "(2::int) ^ nat (bq - 1) \<le> q" "q < 2 ^ nat bq"
    by (simp_all add: bq_def)
  then have "(of_int (2 ^ nat (bq - 1)) :: rat) \<le> of_int q" "(of_int q :: rat) < of_int (2 ^ nat bq)"
    by (simp_all only: of_int_le_iff of_int_less_iff)
  then have Q: "pow2 (bq - 1) \<le> of_int q" "of_int q < pow2 bq"
    using bq1 by (simp_all add: pow2_nat)
  have qpos: "(0::rat) < of_int q" using q by simp
  have ppos: "(0::rat) < of_int p" using p by simp
  have up: "a < pow2 (bp - bq + 1)"
  proof -
    have "a < pow2 bp / of_int q"
      unfolding a using P(2) qpos by (simp add: divide_strict_right_mono)
    also have "\<dots> \<le> pow2 bp / pow2 (bq - 1)"
      using Q(1) pow2_pos [of bp] pow2_pos [of "bq - 1"] by (simp add: frac_le)
    also have "\<dots> = pow2 (bp - (bq - 1))" by (simp only: pow2_diff)
    finally show ?thesis by (simp add: algebra_simps)
  qed
  have lo: "pow2 (bp - bq - 1) < a"
  proof -
    have "pow2 (bp - bq - 1) = pow2 (bp - 1 - bq)" by (simp add: algebra_simps)
    also have "\<dots> = pow2 (bp - 1) / pow2 bq" by (simp only: pow2_diff)
    also have "\<dots> < pow2 (bp - 1) / of_int q"
      using Q(2) pow2_pos [of "bp - 1"] qpos by (simp add: frac_less2)
    also have "\<dots> \<le> a"
      unfolding a using P(1) qpos by (simp add: divide_right_mono)
    finally show ?thesis .
  qed
  have ex: "exponent a = (if pow2 (bp - bq) \<le> a then bp - bq else bp - bq - 1)"
    by (simp add: exponent_def pq bp_def bq_def Let_def)
  show ?thesis
  proof (cases "pow2 (bp - bq) \<le> a")
    case True
    then show ?thesis using up by (simp add: ex)
  next
    case False
    then show ?thesis using lo by (simp add: ex)
  qed
qed

lemma round_half_even_error: "\<bar>of_int (round_half_even x) - x\<bar> \<le> 1 / 2"
proof -
  define f where "f = \<lfloor>x\<rfloor>"
  have b: "of_int f \<le> x" "x < of_int f + 1"
    unfolding f_def by linarith+
  have r: "round_half_even x =
             (if x - of_int f < 1 / 2 then f else if 1 / 2 < x - of_int f then f + 1
              else if even f then f else f + 1)"
    by (simp add: round_half_even_def Let_def f_def)
  show ?thesis
    unfolding r using b by (auto simp: abs_le_iff)
qed

text \<open>
  \<open>to_double\<close> returns a point of the grid of spacing \<open>ulp\<close> in the binade of its
  argument, at distance at most half the spacing.
\<close>

lemma to_double_nearest:
  assumes "x \<noteq> 0"
  defines "ulp \<equiv> pow2 (max (exponent \<bar>x\<bar>) (- 1022) - 52)"
  shows "\<exists>m. to_double x = of_int m * ulp" and "\<bar>to_double x - x\<bar> \<le> ulp / 2"
proof -
  define m where "m = round_half_even (\<bar>x\<bar> / ulp)"
  have u: "0 < ulp" by (simp add: ulp_def pow2_pos)
  have td: "to_double x = sgn x * of_int m * ulp"
    using assms(1) by (simp add: to_double_def Let_def m_def ulp_def)
  have "sgn x * of_int m = (of_int (sgn (if 0 < x then 1 else - 1) * m) :: rat)"
    using assms(1) by (simp add: sgn_if)
  then show "\<exists>m. to_double x = of_int m * ulp"
    unfolding td by metis
  have "\<bar>of_int m - \<bar>x\<bar> / ulp\<bar> \<le> 1 / 2"
    unfolding m_def by (rule round_half_even_error)
  then have "\<bar>of_int m - \<bar>x\<bar> / ulp\<bar> * ulp \<le> 1 / 2 * ulp"
    using u by (simp only: mult_le_cancel_right_pos)
  moreover have "\<bar>of_int m - \<bar>x\<bar> / ulp\<bar> * ulp = \<bar>of_int m * ulp - \<bar>x\<bar>\<bar>"
  proof -
    have "(of_int m - \<bar>x\<bar> / ulp) * ulp = of_int m * ulp - \<bar>x\<bar>"
      using u by (simp add: left_diff_distrib)
    then have "\<bar>of_int m * ulp - \<bar>x\<bar>\<bar> = \<bar>of_int m - \<bar>x\<bar> / ulp\<bar> * \<bar>ulp\<bar>"
      by (simp only: abs_mult [symmetric])
    then show ?thesis using u by simp
  qed
  ultimately have e: "\<bar>of_int m * ulp - \<bar>x\<bar>\<bar> \<le> ulp / 2" by simp
  have "\<bar>to_double x - x\<bar> = \<bar>of_int m * ulp - \<bar>x\<bar>\<bar>"
  proof (cases "0 < x")
    case True
    then show ?thesis by (simp add: td)
  next
    case False
    with assms(1) have "x < 0" by simp
    then have "to_double x - x = - (of_int m * ulp - \<bar>x\<bar>)" by (simp add: td)
    then show ?thesis by (simp only: abs_minus_cancel)
  qed
  with e show "\<bar>to_double x - x\<bar> \<le> ulp / 2" by simp
qed

subsection \<open>The store\<close>

text \<open>
  Every inner dictionary of a reachable store has distinct keys and at least one entry:
  it is created by the assignment that fills it.
\<close>

lemma reachable_mcp_wf:
  assumes "reachable_mcp mcp" and "scores mcp cid = Some sd"
  shows "distinct (map fst sd) \<and> sd \<noteq> []"
  using assms
proof (induction arbitrary: cid sd rule: reachable_mcp.induct)
  case reach_init
  then show ?case by (simp add: mcp_init_def)
next
  case (reach_update mcp c ag s md now)
  show ?case
  proof (cases "check_score s")
    case (Inl e)
    with reach_update show ?thesis by (simp add: update_score_def)
  next
    case (Inr u)
    show ?thesis
    proof (cases "cid = c")
      case True
      with Inr reach_update.prems
      have sd: "sd = AList.update ag \<lparr>score = s, timestamp = now,
                   metadata = (case md of None \<Rightarrow> [] | Some m \<Rightarrow> m)\<rparr>
                   (case scores mcp c of None \<Rightarrow> [] | Some d \<Rightarrow> d)"
        by (simp add: update_score_def Let_def)
      have "distinct (map fst (case scores mcp c of None \<Rightarrow> [] | Some d \<Rightarrow> d))"
        using reach_update.IH by (cases "scores mcp c") auto
      then show ?thesis unfolding sd by (simp add: distinct_update)
    next
      case False
      with Inr reach_update.prems have "scores mcp cid = Some sd"
        by (simp add: update_score_def Let_def)
      then show ?thesis by (rule reach_update.IH)
    qed
  qed
qed

text \<open>
  The list computations of \<open>get_consensus\<close> against their reading on the finite map
  that the dictionary denotes.
\<close>

lemma count_alist:
  "distinct (map fst ss) \<Longrightarrow>
   length (filter P (map snd ss)) = card {k. \<exists>v. map_of ss k = Some v \<and> P v}"
proof (induction ss)
  case Nil
  then show ?case by simp
next
  case (Cons p ss)
  obtain k v where p: "p = (k, v)" by (cases p)
  let ?S = "{k'. \<exists>v'. map_of ss k' = Some v' \<and> P v'}"
  have fin: "finite ?S"
    by (rule finite_subset [of _ "dom (map_of ss)"]) (auto simp: finite_dom_map_of)
  have notin: "k \<notin> ?S"
    using Cons.prems p by (auto dest: map_of_SomeD intro: rev_image_eqI)
  have nk: "map_of ss k = None"
    using Cons.prems p by (simp add: map_of_eq_None_iff)
  have eq: "{k'. \<exists>v'. map_of (p # ss) k' = Some v' \<and> P v'} = (if P v then insert k ?S else ?S)"
    using nk by (auto simp: p)
  from Cons have IH: "length (filter P (map snd ss)) = card ?S" by simp
  show ?case unfolding eq using IH fin notin by (simp add: p)
qed

lemma card_dom_alist:
  "distinct (map fst ss) \<Longrightarrow> card (dom (map_of ss)) = length ss"
  by (simp add: dom_map_of_conv_image_fst distinct_card flip: set_map)

lemma max_alist:
  assumes "distinct (map fst ss)" and "map snd ss = v # vs"
  shows "fold max vs v = Max (ran (map_of ss))"
proof -
  have "ran (map_of ss) = snd ` set ss"
    using assms(1) by (rule ran_distinct)
  also have "\<dots> = set (v # vs)"
    using assms(2) by (metis set_map)
  finally have "ran (map_of ss) = set (v # vs)" .
  then show ?thesis by (simp only: Max.set_eq_fold)
qed

lemma update_score_rejected:
  "s < 0 \<or> 1 < s \<Longrightarrow> update_score cid ag s md now mcp = (False, mcp)"
  by (auto simp: update_score_def check_score_def)

lemma update_score_accepted:
  assumes "0 \<le> s" and "s \<le> 1"
  shows "update_score cid ag s md now mcp =
    (True, mcp\<lparr>scores := (scores mcp)(cid \<mapsto>
              AList.update ag \<lparr>score = s, timestamp = now,
                                metadata = (case md of None \<Rightarrow> [] | Some m \<Rightarrow> m)\<rparr>
                (case scores mcp cid of None \<Rightarrow> [] | Some d \<Rightarrow> d)),
            history := history mcp @ [\<lparr>h_claim_id = cid, h_agent = ag, h_score = s,
                                      h_timestamp = now, h_metadata = md\<rparr>]\<rparr>)"
  using assms by (simp add: update_score_def check_score_def Let_def)

lemma latest_update_score:
  assumes "0 \<le> s" and "s \<le> 1"
  shows "latest (snd (update_score cid ag s md now mcp)) c a =
           (if c = cid \<and> a = ag then Some s else latest mcp c a)"
  using assms
  by (cases "scores mcp cid")
     (auto simp: update_score_accepted latest_def update_conv')

text \<open>
  C6: a call of \<open>update_score\<close> with a score below 0 or above 1 fails (the ValueError is
  caught inside and the call returns False) and leaves the latest votes and the history
  as they were; with a score in the closed interval from 0 to 1 it returns True, the
  latest vote of that agent on that claim is the score, every other latest vote is
  untouched, and exactly one element, the vote itself, is appended to the history.
\<close>

theorem record_vote_validates:
  "(s < 0 \<or> 1 < s \<longrightarrow> update_score cid ag s md now mcp = (False, mcp)) \<and>
   (0 \<le> s \<and> s \<le> 1 \<longrightarrow>
      fst (update_score cid ag s md now mcp) = True \<and>
      latest (snd (update_score cid ag s md now mcp)) cid ag = Some s \<and>
      (\<forall>c a. (c, a) \<noteq> (cid, ag) \<longrightarrow>
         latest (snd (update_score cid ag s md now mcp)) c a = latest mcp c a) \<and>
      history (snd (update_score cid ag s md now mcp)) =
        history mcp @ [\<lparr>h_claim_id = cid, h_agent = ag, h_score = s,
                         h_timestamp = now, h_metadata = md\<rparr>])"
proof (intro conjI impI)
  assume "s < 0 \<or> 1 < s"
  then show "update_score cid ag s md now mcp = (False, mcp)"
    by (rule update_score_rejected)
next
  assume v: "0 \<le> s \<and> s \<le> 1"
  then show "fst (update_score cid ag s md now mcp) = True"
    by (simp add: update_score_accepted)
  from v show "latest (snd (update_score cid ag s md now mcp)) cid ag = Some s"
    by (simp add: latest_update_score)
  from v show "\<forall>c a. (c, a) \<noteq> (cid, ag) \<longrightarrow>
         latest (snd (update_score cid ag s md now mcp)) c a = latest mcp c a"
    by (simp add: latest_update_score)
  from v show "history (snd (update_score cid ag s md now mcp)) =
        history mcp @ [\<lparr>h_claim_id = cid, h_agent = ag, h_score = s,
                         h_timestamp = now, h_metadata = md\<rparr>]"
    by (simp add: update_score_accepted)
qed

theorem record_vote_validates_witness:
  "update_score ''CLM-001'' ''A'' (3 / 2) None ''t'' mcp_init = (False, mcp_init) \<and>
   fst (update_score ''CLM-001'' ''A'' (1 / 2) None ''t'' mcp_init) = True \<and>
   latest (snd (update_score ''CLM-001'' ''A'' (1 / 2) None ''t'' mcp_init)) ''CLM-001'' ''A''
     = Some (1 / 2) \<and>
   length (history (snd (update_score ''CLM-001'' ''A'' (1 / 2) None ''t'' mcp_init))) = 1"
  using record_vote_validates [of "3 / 2" "''CLM-001''" "''A''" None "''t''" mcp_init]
        record_vote_validates [of "1 / 2" "''CLM-001''" "''A''" None "''t''" mcp_init]
  by (simp add: mcp_init_def)

lemma count_key_update:
  "distinct (map fst al) \<Longrightarrow> length (filter (\<lambda>p. fst p = k) (AList.update k v al)) = 1"
  by (induction al) (auto simp: image_iff filter_empty_conv)

text \<open>
  C8: two accepted votes of one agent on one claim, with scores \<open>s1\<close> then \<open>s2\<close>, leave
  exactly one entry of that agent in the claim's dictionary, with score \<open>s2\<close>, while the
  history has grown by both votes, in order.
\<close>

theorem revote_overwrites:
  assumes "reachable_mcp mcp"
    and "0 \<le> s1 \<and> s1 \<le> 1" and "0 \<le> s2 \<and> s2 \<le> 1"
  shows "\<exists>sd. scores (snd (update_score cid ag s2 md2 t2
                        (snd (update_score cid ag s1 md1 t1 mcp)))) cid = Some sd \<and>
           length (filter (\<lambda>p. fst p = ag) sd) = 1 \<and>
           map_option score (map_of sd ag) = Some s2 \<and>
           history (snd (update_score cid ag s2 md2 t2
                        (snd (update_score cid ag s1 md1 t1 mcp)))) =
             history mcp @
               [\<lparr>h_claim_id = cid, h_agent = ag, h_score = s1,
                  h_timestamp = t1, h_metadata = md1\<rparr>,
                \<lparr>h_claim_id = cid, h_agent = ag, h_score = s2,
                  h_timestamp = t2, h_metadata = md2\<rparr>]"
proof -
  let ?m1 = "snd (update_score cid ag s1 md1 t1 mcp)"
  let ?m2 = "snd (update_score cid ag s2 md2 t2 ?m1)"
  have r1: "reachable_mcp ?m1" using assms(1) by (rule reach_update)
  obtain sd1 where sd1: "scores ?m1 cid = Some sd1"
    using assms(2) by (simp add: update_score_accepted)
  have d1: "distinct (map fst sd1)" using reachable_mcp_wf [OF r1 sd1] by simp
  let ?sd = "AList.update ag \<lparr>score = s2, timestamp = t2,
                 metadata = (case md2 of None \<Rightarrow> [] | Some m \<Rightarrow> m)\<rparr> sd1"
  have sd2: "scores ?m2 cid = Some ?sd"
    using assms(3) sd1 by (simp add: update_score_accepted)
  have one: "length (filter (\<lambda>p. fst p = ag) ?sd) = 1"
    using d1 by (rule count_key_update)
  have val: "map_option score (map_of ?sd ag) = Some s2"
    by (simp add: update_conv')
  have hist: "history ?m2 = history mcp @
               [\<lparr>h_claim_id = cid, h_agent = ag, h_score = s1,
                  h_timestamp = t1, h_metadata = md1\<rparr>,
                \<lparr>h_claim_id = cid, h_agent = ag, h_score = s2,
                  h_timestamp = t2, h_metadata = md2\<rparr>]"
    using assms(2,3) by (simp add: update_score_accepted)
  from sd2 one val hist show ?thesis by blast
qed

theorem revote_overwrites_witness:
  "reachable_mcp mcp_init \<and> (0::rat) \<le> 2 / 10 \<and> (2 / 10 :: rat) \<le> 1 \<and>
   (0::rat) \<le> 9 / 10 \<and> (9 / 10 :: rat) \<le> 1 \<and>
   (\<exists>sd. scores (snd (update_score ''CLM-001'' ''A'' (9 / 10) None ''t2''
                        (snd (update_score ''CLM-001'' ''A'' (2 / 10) None ''t1'' mcp_init))))
            ''CLM-001'' = Some sd \<and>
           length (filter (\<lambda>p. fst p = ''A'') sd) = 1 \<and>
           map_option score (map_of sd ''A'') = Some (9 / 10)) \<and>
   length (history (snd (update_score ''CLM-001'' ''A'' (9 / 10) None ''t2''
                        (snd (update_score ''CLM-001'' ''A'' (2 / 10) None ''t1'' mcp_init)))))
     = 2"
proof -
  have v1: "(0::rat) \<le> 2 / 10 \<and> (2 / 10 :: rat) \<le> 1" by simp
  have v2: "(0::rat) \<le> 9 / 10 \<and> (9 / 10 :: rat) \<le> 1" by simp
  from revote_overwrites [OF reach_init v1 v2, of "''CLM-001''" "''A''" None "''t2''" None "''t1''"]
  show ?thesis using reach_init by (auto simp: mcp_init_def)
qed

lemma latest_empty_iff:
  assumes "reachable_mcp mcp"
  shows "(\<forall>ag. latest mcp cid ag = None) \<longleftrightarrow> scores mcp cid = None"
proof (cases "scores mcp cid")
  case None
  then show ?thesis by (simp add: latest_def)
next
  case (Some sd)
  with reachable_mcp_wf [OF assms Some] obtain k v sd' where "sd = (k, v) # sd'"
    by (cases sd) auto
  with Some have "latest mcp cid k = Some (score v)" by (simp add: latest_def)
  with Some show ?thesis by auto
qed

text \<open>
  Rounding acts on the double, not on the decimal it was written as: \<open>round(0.685, 2)\<close>
  is \<open>0.69\<close>, since the double of \<open>0.685\<close> lies above the tie, and the average of the
  votes \<open>0.5\<close> and \<open>0.55\<close> is rounded to \<open>0.53\<close>, not to \<open>0.52\<close>.
\<close>

lemma py_round2_examples:
  "py_round2 (to_double (685 / 1000)) = to_double (69 / 100)"
  "py_round2 (fdiv (sum_left_to_right [to_double (5 / 10), to_double (55 / 100)]) 2) =
     to_double (53 / 100)"
  "py_round2 (fdiv (sum_compensated [to_double (5 / 10), to_double (55 / 100)]) 2) =
     to_double (53 / 100)"
  "to_double (53 / 100) \<noteq> to_double (52 / 100)"
  "to_double (69 / 100) \<noteq> to_double (68 / 100)"
  by code_simp+

text \<open>
  The example store: the four votes are accepted, and no other claim is known.
\<close>

lemma example_scores_in_range:
  "0 \<le> to_double (8 / 10) \<and> to_double (8 / 10) \<le> 1 \<and>
   0 \<le> to_double (75 / 100) \<and> to_double (75 / 100) \<le> 1 \<and>
   0 \<le> to_double (9 / 10) \<and> to_double (9 / 10) \<le> 1 \<and>
   0 \<le> to_double (2 / 10) \<and> to_double (2 / 10) \<le> 1"
  by code_simp

lemma example_votes_scores:
  "scores example_votes =
     [''CLM-001'' \<mapsto>
        [(''A'', \<lparr>score = to_double (8 / 10), timestamp = ''t1'', metadata = []\<rparr>),
         (''B'', \<lparr>score = to_double (75 / 100), timestamp = ''t2'', metadata = []\<rparr>),
         (''C'', \<lparr>score = to_double (9 / 10), timestamp = ''t3'', metadata = []\<rparr>),
         (''D'', \<lparr>score = to_double (2 / 10), timestamp = ''t4'', metadata = []\<rparr>)]]"
  using example_scores_in_range
  by (simp add: example_votes_def update_score_accepted mcp_init_def)

text \<open>
  C9: for a claim without any latest vote, \<open>get_consensus\<close> returns False with the empty
  dictionary, whatever the builtin \<open>sum\<close> does; the function is total, so there is no
  error result.
\<close>

theorem consensus_without_votes:
  assumes "reachable_mcp mcp" and "\<forall>ag. latest mcp cid ag = None"
  shows "get_consensus py_sum cid mcp = (False, None)"
proof -
  from assms have "scores mcp cid = None" by (simp add: latest_empty_iff)
  then show ?thesis by (simp add: get_consensus_def)
qed

theorem consensus_without_votes_witness:
  "reachable_mcp example_votes \<and> (\<forall>ag. latest example_votes ''CLM-002'' ag = None) \<and>
   get_consensus sum_left_to_right ''CLM-002'' example_votes = (False, None)"
proof -
  have r: "reachable_mcp example_votes"
    unfolding example_votes_def by (intro reachable_mcp.intros)
  have e: "\<forall>ag. latest example_votes ''CLM-002'' ag = None"
    by (simp add: latest_def example_votes_scores)
  from consensus_without_votes [OF r e] r e show ?thesis by simp
qed

lemma latest_simple_scores:
  "scores mcp cid = Some sd \<Longrightarrow> latest mcp cid = map_of (map (\<lambda>(k, v). (k, score v)) sd)"
  by (rule ext) (simp add: latest_def map_of_map)

lemma fst_simple_scores: "map fst (map (\<lambda>(k, v). (k, f v)) sd) = map fst sd"
  by (induction sd) auto

text \<open>
  C1, as the code has it: for a claim with at least one recorded vote, the verdict is
  true exactly when the number of agents whose latest score reaches the fraud threshold
  is at least the consensus threshold. The detail holds the whole mapping of agents to
  latest scores, one entry per agent, and that count. Its average is the float quotient
  of the builtin \<open>sum\<close> of these scores by the number of agents, rounded by
  \<open>round(_, 2)\<close>; its maximum is the greatest latest score, rounded by \<open>round(_, 2)\<close>.
  This holds whatever the builtin \<open>sum\<close> computes, hence for both of its forms.
\<close>

theorem consensus_counts_latest_votes:
  assumes "reachable_mcp mcp" and "latest mcp cid ag \<noteq> None"
  shows "\<exists>d. get_consensus py_sum cid mcp =
           (CONSENSUS_THRESHOLD \<le> card {a. \<exists>s. latest mcp cid a = Some s \<and> FRAUD_THRESHOLD \<le> s},
            Some d) \<and>
         map_of (d_scores d) = latest mcp cid \<and>
         distinct (map fst (d_scores d)) \<and>
         average_score d =
           py_round2 (fdiv (py_sum (map snd (d_scores d)))
                           (of_nat (card (dom (latest mcp cid))))) \<and>
         max_score d = py_round2 (Max (ran (latest mcp cid))) \<and>
         fraud_count d = card {a. \<exists>s. latest mcp cid a = Some s \<and> FRAUD_THRESHOLD \<le> s}"
proof -
  from assms(2) obtain sd where sd: "scores mcp cid = Some sd"
    by (auto simp: latest_def split: option.splits)
  from reachable_mcp_wf [OF assms(1) sd] have dist: "distinct (map fst sd)" and ne: "sd \<noteq> []"
    by simp_all
  define ss where "ss = map (\<lambda>(k, v). (k, score v)) sd"
  have lat: "latest mcp cid = map_of ss"
    unfolding ss_def using sd by (rule latest_simple_scores)
  have dss: "distinct (map fst ss)"
    unfolding ss_def using dist by (simp only: fst_simple_scores)
  have nss: "ss \<noteq> []" using ne by (simp add: ss_def)
  then obtain v vs where vals: "map snd ss = v # vs" by (cases ss) auto
  have cnt: "length (filter (\<lambda>s. FRAUD_THRESHOLD \<le> s) (map snd ss)) =
             card {a. \<exists>s. latest mcp cid a = Some s \<and> FRAUD_THRESHOLD \<le> s}"
    unfolding lat using dss by (rule count_alist)
  have len: "length ss = card (dom (latest mcp cid))"
    unfolding lat using dss by (simp only: card_dom_alist)
  have mx: "fold max vs v = Max (ran (latest mcp cid))"
    unfolding lat using dss vals by (rule max_alist)
  have "get_consensus py_sum cid mcp =
          (CONSENSUS_THRESHOLD \<le> length (filter (\<lambda>s. FRAUD_THRESHOLD \<le> s) (map snd ss)),
           Some \<lparr>d_scores = ss,
                 average_score = py_round2 (fdiv (py_sum (map snd ss)) (of_nat (length ss))),
                 max_score = py_round2 (case map snd ss of [] \<Rightarrow> 0 | w # ws \<Rightarrow> fold max ws w),
                 fraud_count = length (filter (\<lambda>s. FRAUD_THRESHOLD \<le> s) (map snd ss)),
                 agent_details = sd\<rparr>)"
    using sd nss by (simp add: get_consensus_def Let_def flip: ss_def)
  moreover have "(case map snd ss of [] \<Rightarrow> 0 | w # ws \<Rightarrow> fold max ws w) = fold max vs v"
    by (simp add: vals)
  ultimately show ?thesis
    unfolding cnt len using lat dss mx by simp
qed

theorem consensus_counts_latest_votes_witness:
  "reachable_mcp example_votes \<and> latest example_votes ''CLM-001'' ''A'' \<noteq> None \<and>
   (\<exists>d. get_consensus sum_left_to_right ''CLM-001'' example_votes =
           (CONSENSUS_THRESHOLD \<le>
              card {a. \<exists>s. latest example_votes ''CLM-001'' a = Some s \<and> FRAUD_THRESHOLD \<le> s},
            Some d) \<and>
         average_score d =
           py_round2 (fdiv (sum_left_to_right (map snd (d_scores d)))
                           (of_nat (card (dom (latest example_votes ''CLM-001''))))) \<and>
         max_score d = py_round2 (Max (ran (latest example_votes ''CLM-001''))) \<and>
         fraud_count d =
           card {a. \<exists>s. latest example_votes ''CLM-001'' a = Some s \<and> FRAUD_THRESHOLD \<le> s})"
proof -
  have r: "reachable_mcp example_votes"
    unfolding example_votes_def by (intro reachable_mcp.intros)
  have n: "latest example_votes ''CLM-001'' ''A'' \<noteq> None"
    by (simp add: latest_def example_votes_scores)
  from consensus_counts_latest_votes [OF r n, of sum_left_to_right] r n
  show ?thesis by blast
qed

text \<open>
  The float operations of the example, one at a time: the doubles of the literals, the
  additions of the left-to-right sum, the steps of the compensated sum, the two
  quotients by 4 and the roundings to two decimals.
\<close>

lemma example_doubles:
  "to_double (4 / 5) = 3602879701896397 / 4503599627370496"
  "to_double (3 / 4) = 3 / 4"
  "to_double (9 / 10) = 8106479329266893 / 9007199254740992"
  "to_double (1 / 5) = 3602879701896397 / 18014398509481984"
  "to_double (7 / 10) = 3152519739159347 / 4503599627370496"
  "to_double (33 / 50) = 5944751508129055 / 9007199254740992"
  "to_double (53 / 80) = 5967269506265907 / 9007199254740992"
  by code_simp+

lemma example_sum_steps:
  "fadd 0 (3602879701896397 / 4503599627370496) = 3602879701896397 / 4503599627370496"
  "fadd (3602879701896397 / 4503599627370496) (3 / 4) = 6980579422424269 / 4503599627370496"
  "fadd (6980579422424269 / 4503599627370496) (8106479329266893 / 9007199254740992) =
     2758454771764429 / 1125899906842624"
  "fadd (2758454771764429 / 1125899906842624) (3602879701896397 / 18014398509481984) =
     1491817376566477 / 562949953421312"
  by code_simp+

lemma example_compensation_steps:
  "to_double (3602879701896397 / 4503599627370496) = 3602879701896397 / 4503599627370496"
  "fsub (3602879701896397 / 4503599627370496) (6980579422424269 / 4503599627370496) =
     - (3 / 4)"
  "fadd (- (3 / 4)) (3 / 4) = 0"
  "fadd 0 (0) = 0"
  "fsub (6980579422424269 / 4503599627370496) (2758454771764429 / 1125899906842624) =
     - (4053239664633447 / 4503599627370496)"
  "fadd (- (4053239664633447 / 4503599627370496)) (8106479329266893 / 9007199254740992) =
     - (1 / 9007199254740992)"
  "fadd 0 (- (1 / 9007199254740992)) = - (1 / 9007199254740992)"
  "fsub (2758454771764429 / 1125899906842624) (1491817376566477 / 562949953421312) =
     - (225179981368525 / 1125899906842624)"
  "fadd (- (225179981368525 / 1125899906842624)) (3602879701896397 / 18014398509481984) =
     - (3 / 18014398509481984)"
  "fadd (- (1 / 9007199254740992)) (- (3 / 18014398509481984)) = - (5 / 18014398509481984)"
  "fadd (1491817376566477 / 562949953421312) (- (5 / 18014398509481984)) =
     5967269506265907 / 2251799813685248"
  by code_simp+

lemma example_quotients:
  "fdiv (1491817376566477 / 562949953421312) 4 = 1491817376566477 / 2251799813685248"
  "fdiv (5967269506265907 / 2251799813685248) 4 = 5967269506265907 / 9007199254740992"
  by code_simp+

lemma example_roundings:
  "py_round2 (1491817376566477 / 2251799813685248) = 5944751508129055 / 9007199254740992"
  "py_round2 (5967269506265907 / 9007199254740992) = 5944751508129055 / 9007199254740992"
  "py_round2 (8106479329266893 / 9007199254740992) = 8106479329266893 / 9007199254740992"
  by code_simp+

lemma example_sum_left_to_right:
  "sum_left_to_right [to_double (8 / 10), to_double (75 / 100), to_double (9 / 10),
                      to_double (2 / 10)] = 1491817376566477 / 562949953421312"
  by (simp add: sum_left_to_right_def example_doubles example_sum_steps)

lemma example_sum_compensated:
  "sum_compensated [to_double (8 / 10), to_double (75 / 100), to_double (9 / 10),
                    to_double (2 / 10)] = 5967269506265907 / 2251799813685248"
  by (simp add: sum_compensated_def Let_def example_doubles example_sum_steps
                example_compensation_steps)

lemma example_consensus:
  "get_consensus py_sum ''CLM-001'' example_votes =
     (True,
      Some \<lparr>d_scores = [(''A'', to_double (8 / 10)), (''B'', to_double (75 / 100)),
                        (''C'', to_double (9 / 10)), (''D'', to_double (2 / 10))],
            average_score =
              py_round2 (fdiv (py_sum [to_double (8 / 10), to_double (75 / 100),
                                       to_double (9 / 10), to_double (2 / 10)]) 4),
            max_score = to_double (9 / 10),
            fraud_count = 3,
            agent_details = the (scores example_votes ''CLM-001'')\<rparr>)"
  by (simp add: get_consensus_def example_votes_scores Let_def FRAUD_THRESHOLD_def
                CONSENSUS_THRESHOLD_def example_doubles example_roundings)

text \<open>
  C1 as stated fails on its own example: for the latest votes A 0.8, B 0.75, C 0.9 and
  D 0.2 the verdict is true, the count 3 and the maximum 0.9, but the average in the
  detail is the float 0.66, not the float 0.6625, with either form of the builtin
  \<open>sum\<close>.
\<close>

theorem consensus_average_counterexample:
  "fst (get_consensus sum_left_to_right ''CLM-001'' example_votes) = True \<and>
   map_option fraud_count (snd (get_consensus sum_left_to_right ''CLM-001'' example_votes))
     = Some 3 \<and>
   map_option max_score (snd (get_consensus sum_left_to_right ''CLM-001'' example_votes))
     = Some (to_double (9 / 10)) \<and>
   map_option average_score (snd (get_consensus sum_left_to_right ''CLM-001'' example_votes))
     = Some (to_double (66 / 100)) \<and>
   map_option average_score (snd (get_consensus sum_left_to_right ''CLM-001'' example_votes))
     \<noteq> Some (to_double (6625 / 10000)) \<and>
   fst (get_consensus sum_compensated ''CLM-001'' example_votes) = True \<and>
   map_option fraud_count (snd (get_consensus sum_compensated ''CLM-001'' example_votes))
     = Some 3 \<and>
   map_option max_score (snd (get_consensus sum_compensated ''CLM-001'' example_votes))
     = Some (to_double (9 / 10)) \<and>
   map_option average_score (snd (get_consensus sum_compensated ''CLM-001'' example_votes))
     = Some (to_double (66 / 100)) \<and>
   map_option average_score (snd (get_consensus sum_compensated ''CLM-001'' example_votes))
     \<noteq> Some (to_double (6625 / 10000))"
  unfolding example_consensus example_sum_left_to_right example_sum_compensated
  by (simp add: example_doubles example_quotients example_roundings)

section \<open>Properties of the notification hub\<close>

lemma length_last10: "length (last10 xs) \<le> 10"
  by (simp add: last10_def)

lemma set_last10: "set (last10 xs) \<subseteq> set xs"
  by (simp add: last10_def set_drop_subset)

lemma last10_short: "length xs \<le> 10 \<Longrightarrow> last10 xs = xs"
  by (simp add: last10_def)

lemma last10_append_long: "10 \<le> length ys \<Longrightarrow> last10 (xs @ ys) = last10 ys"
  by (simp add: last10_def)

lemma last10_last10_append: "last10 (last10 xs @ ys) = last10 (xs @ ys)"
proof (cases "length xs \<le> 10")
  case True
  then show ?thesis by (simp add: last10_short)
next
  case False
  then have "length (last10 xs) = 10" by (simp add: last10_def)
  then have "last10 (last10 xs @ ys) = drop (length ys) (last10 xs @ ys)"
    by (simp add: last10_def)
  also have "\<dots> = drop (length ys + (length xs - 10)) xs @ drop (length ys - 10) ys"
    using \<open>length (last10 xs) = 10\<close> by (simp add: last10_def)
  also have "\<dots> = last10 (xs @ ys)"
    using False by (simp add: last10_def add.commute)
  finally show ?thesis .
qed

lemma pending_store:
  "pending_updates (store_pending_update tid data m) t =
     (if t = tid
      then Some (if is_heartbeat data
                 then (case pending_updates m tid of None \<Rightarrow> [] | Some l \<Rightarrow> l)
                 else last10 ((case pending_updates m tid of None \<Rightarrow> [] | Some l \<Rightarrow> l) @ [data]))
      else pending_updates m t)"
  by (simp add: store_pending_update_def is_heartbeat_def Let_def)

lemma active_store [simp]:
  "active_connections (store_pending_update tid data m) = active_connections m"
  by (simp add: store_pending_update_def Let_def)

lemma wire_store [simp]: "wire (store_pending_update tid data m) = wire m"
  by (simp add: store_pending_update_def Let_def)

lemma pending_disconnect [simp]: "pending_updates (disconnect tid m) = pending_updates m"
  by (simp add: disconnect_def)

lemma wire_disconnect [simp]: "wire (disconnect tid m) = wire m"
  by (simp add: disconnect_def)

lemma active_disconnect:
  "map_of (active_connections (disconnect tid m)) t =
     (if t = tid then None else map_of (active_connections m) t)"
  by (auto simp: disconnect_def delete_conv)

lemma buffer_ok_store: "buffer_ok m \<Longrightarrow> buffer_ok (store_pending_update tid data m)"
  unfolding buffer_ok_def
proof (intro allI impI)
  fix t buf
  assume ok: "\<forall>tid buf. pending_updates m tid = Some buf \<longrightarrow>
                length buf \<le> 10 \<and> (\<forall>u\<in>set buf. \<not> is_heartbeat u)"
    and p: "pending_updates (store_pending_update tid data m) t = Some buf"
  let ?old = "case pending_updates m tid of None \<Rightarrow> [] | Some l \<Rightarrow> l"
  have old: "length ?old \<le> 10 \<and> (\<forall>u\<in>set ?old. \<not> is_heartbeat u)"
    using ok by (cases "pending_updates m tid") auto
  show "length buf \<le> 10 \<and> (\<forall>u\<in>set buf. \<not> is_heartbeat u)"
  proof (cases "t = tid")
    case False
    with p ok show ?thesis by (simp add: pending_store)
  next
    case True
    show ?thesis
    proof (cases "is_heartbeat data")
      case True
      with \<open>t = tid\<close> p old show ?thesis by (simp add: pending_store)
    next
      case False
      with \<open>t = tid\<close> p have buf: "buf = last10 (?old @ [data])" by (simp add: pending_store)
      have "set buf \<subseteq> set (?old @ [data])" unfolding buf by (rule set_last10)
      with old False show ?thesis unfolding buf by (auto simp: length_last10)
    qed
  qed
qed

lemma buffer_ok_disconnect: "buffer_ok m \<Longrightarrow> buffer_ok (disconnect tid m)"
  by (simp add: buffer_ok_def)

lemma pending_send_text: "send_text ch ws u m = Inr m' \<Longrightarrow> pending_updates m' = pending_updates m"
  by (auto simp: send_text_def split: if_splits)

lemma pending_replay: "pending_updates (replay chs i ws us m) = pending_updates m"
proof (induction us arbitrary: i m)
  case Nil
  then show ?case by simp
next
  case (Cons u us)
  show ?case
  proof (cases "send_text (chs i) ws u m")
    case (Inl e)
    then show ?thesis by simp
  next
    case (Inr m')
    then show ?thesis using Cons [of "Suc i" m'] by (simp add: pending_send_text)
  qed
qed

lemma buffer_ok_connect:
  assumes "buffer_ok m" and "connect a chs ws tid m = Inr m'"
  shows "buffer_ok m'"
proof -
  have "pending_updates m' = pending_updates m \<or>
        pending_updates m' = (pending_updates m)(tid := None)"
    using assms(2)
    by (auto simp: connect_def Let_def pending_replay split: if_splits option.splits)
  with assms(1) show ?thesis by (auto simp: buffer_ok_def split: if_splits)
qed

lemma buffer_ok_send:
  assumes "buffer_ok m" and "send_progress_update ch tid data m = Inr m'"
  shows "buffer_ok m'"
proof -
  have "pending_updates m' = pending_updates m \<or>
        m' = store_pending_update tid data m \<or>
        m' = disconnect tid (store_pending_update tid data m)"
    using assms(2)
    by (auto simp: send_progress_update_def send_text_def split: option.splits if_splits)
  then show ?thesis
  proof (elim disjE)
    assume "pending_updates m' = pending_updates m"
    with assms(1) show ?thesis by (simp add: buffer_ok_def)
  next
    assume "m' = store_pending_update tid data m"
    with assms(1) show ?thesis by (simp add: buffer_ok_store)
  next
    assume "m' = disconnect tid (store_pending_update tid data m)"
    with assms(1) show ?thesis by (simp add: buffer_ok_store buffer_ok_disconnect)
  qed
qed

lemma buffer_ok_fold:
  "buffer_ok m \<Longrightarrow>
   buffer_ok (fold (\<lambda>tid m'. disconnect tid (store_pending_update tid data m')) ts m)"
  by (induction ts arbitrary: m) (simp_all add: buffer_ok_store buffer_ok_disconnect)

lemma buffer_ok_broadcast: "buffer_ok m \<Longrightarrow> buffer_ok (broadcast_to_all chs data m)"
  unfolding broadcast_to_all_def Let_def
  by (rule buffer_ok_fold) (simp add: buffer_ok_def)

lemma reachable_hub_buffer_ok: "reachable_hub m \<Longrightarrow> buffer_ok m"
proof (induction rule: reachable_hub.induct)
  case hub_init
  show ?case by (simp add: buffer_ok_def manager_init_def)
next
  case (hub_connect m accept_ok chs ws tid m')
  then show ?case by (auto intro: buffer_ok_connect)
next
  case (hub_disconnect m tid)
  then show ?case by (simp add: buffer_ok_disconnect)
next
  case (hub_send m ch tid data m')
  then show ?case by (auto intro: buffer_ok_send)
next
  case (hub_broadcast m chs data)
  then show ?case by (simp add: buffer_ok_broadcast)
qed

lemma send_unregistered:
  "map_of (active_connections m) tid = None \<Longrightarrow>
   send_progress_update ch tid data m = Inr (store_pending_update tid data m)"
  by (simp add: send_progress_update_def)

lemma send_failing:
  "map_of (active_connections m) tid = Some ws \<Longrightarrow>
   client_state_name ch \<noteq> ''CONNECTED'' \<or> send_raises ch \<Longrightarrow>
   send_progress_update ch tid data m = Inr (disconnect tid (store_pending_update tid data m))"
  by (auto simp: send_progress_update_def send_text_def)


lemma emit_all_unregistered:
  assumes "map_of (active_connections m) tid = None"
  shows "\<exists>m'. emit_all tid cus m = Inr m' \<and>
           active_connections m' = active_connections m \<and> wire m' = wire m \<and>
           (cus \<noteq> [] \<longrightarrow>
              pending_updates m' tid =
                Some (if filter (\<lambda>u. \<not> is_heartbeat u) (map snd cus) = []
                      then (case pending_updates m tid of None \<Rightarrow> [] | Some l \<Rightarrow> l)
                      else last10 ((case pending_updates m tid of None \<Rightarrow> [] | Some l \<Rightarrow> l) @
                                   filter (\<lambda>u. \<not> is_heartbeat u) (map snd cus))))"
  using assms
proof (induction cus arbitrary: m)
  case Nil
  then show ?case by simp
next
  case (Cons cu cus)
  obtain ch u where cu: "cu = (ch, u)" by (cases cu)
  let ?m1 = "store_pending_update tid u m"
  let ?old = "case pending_updates m tid of None \<Rightarrow> [] | Some l \<Rightarrow> l"
  let ?new = "filter (\<lambda>u. \<not> is_heartbeat u) (map snd cus)"
  have step: "emit_all tid (cu # cus) m = emit_all tid cus ?m1"
    using Cons.prems by (simp add: cu send_unregistered)
  have a1: "map_of (active_connections ?m1) tid = None" using Cons.prems by simp
  have p1: "pending_updates ?m1 tid =
              Some (if is_heartbeat u then ?old else last10 (?old @ [u]))"
    by (simp add: pending_store)
  from Cons.IH [OF a1] obtain m' where
    r: "emit_all tid cus ?m1 = Inr m'" and
    a: "active_connections m' = active_connections ?m1" and
    w: "wire m' = wire ?m1" and
    p: "cus \<noteq> [] \<longrightarrow> pending_updates m' tid =
          Some (if ?new = [] then (case pending_updates ?m1 tid of None \<Rightarrow> [] | Some l \<Rightarrow> l)
                else last10 ((case pending_updates ?m1 tid of None \<Rightarrow> [] | Some l \<Rightarrow> l) @ ?new))"
    by blast
  have "pending_updates m' tid =
          Some (if filter (\<lambda>u. \<not> is_heartbeat u) (map snd (cu # cus)) = [] then ?old
                else last10 (?old @ filter (\<lambda>u. \<not> is_heartbeat u) (map snd (cu # cus))))"
  proof (cases "cus = []")
    case True
    with r have "m' = ?m1" by simp
    with True p1 show ?thesis by (simp add: cu)
  next
    case False
    with p p1 show ?thesis
      by (simp add: cu last10_last10_append)
  qed
  with step r a w show ?case by simp
qed

lemma reachable_emit_all:
  "reachable_hub m \<Longrightarrow> emit_all tid cus m = Inr m' \<Longrightarrow> reachable_hub m'"
proof (induction cus arbitrary: m)
  case Nil
  then show ?case by simp
next
  case (Cons cu cus)
  obtain ch u where cu: "cu = (ch, u)" by (cases cu)
  from Cons.prems(2) obtain m1 where
    s: "send_progress_update ch tid u m = Inr m1" and r: "emit_all tid cus m1 = Inr m'"
    by (auto simp: cu split: sum.splits)
  from Cons.prems(1) s have "reachable_hub m1" by (rule hub_send)
  then show ?case using r by (rule Cons.IH)
qed

lemma not_heartbeat_progress_no [simp]: "\<not> is_heartbeat (progress_no n)"
  by (simp add: is_heartbeat_def get_type_def progress_no_def)

lemma last10_map: "last10 (map f xs) = map f (last10 xs)"
  by (simp add: last10_def drop_map)

lemma last10_upto_15: "last10 [1..15] = [6..15]"
  by code_simp

lemma fifteen_emitted:
  "\<exists>m'. emit_all ''T'' (map (\<lambda>n. (open_channel, progress_no n)) [1..15]) manager_init = Inr m' \<and>
         pending_updates m' ''T'' = Some (map progress_no [6..15])"
proof -
  let ?cus = "map (\<lambda>n. (open_channel, progress_no n)) [1..15]"
  have u: "map_of (active_connections manager_init) ''T'' = None"
    by (simp add: manager_init_def)
  have ne: "?cus \<noteq> []" by code_simp
  have sn: "map snd ?cus = map progress_no [1..15]" by (simp add: comp_def)
  have f: "filter (\<lambda>u. \<not> is_heartbeat u) (map progress_no [1..15]) = map progress_no [1..15]"
    by (rule filter_True) auto
  have l: "10 \<le> length (map progress_no [1..15])" by simp
  from emit_all_unregistered [OF u, of ?cus] obtain m' where
    r: "emit_all ''T'' ?cus manager_init = Inr m'" and
    p: "?cus \<noteq> [] \<longrightarrow> pending_updates m' ''T'' =
          Some (if filter (\<lambda>u. \<not> is_heartbeat u) (map snd ?cus) = []
                then (case pending_updates manager_init ''T'' of None \<Rightarrow> [] | Some l \<Rightarrow> l)
                else last10 ((case pending_updates manager_init ''T'' of None \<Rightarrow> [] | Some l \<Rightarrow> l) @
                             filter (\<lambda>u. \<not> is_heartbeat u) (map snd ?cus)))"
    by blast
  from p ne have "pending_updates m' ''T'' = Some (last10 (map progress_no [1..15]))"
    unfolding sn f by (simp add: manager_init_def)
  then have "pending_updates m' ''T'' = Some (map progress_no [6..15])"
    by (simp only: last10_map last10_upto_15)
  with r show ?thesis by blast
qed

text \<open>
  C4: in every state of the hub that its methods can produce, the pending list of a task
  has at most ten elements and no heartbeat among them; when more than ten updates other
  than heartbeats are emitted for a task that has no registered socket, the pending list
  afterwards is exactly the last ten of them, in emission order; and fifteen progress
  updates emitted to the fresh hub leave the sixth to the fifteenth.
\<close>

theorem pending_buffer_bounded:
  "(reachable_hub m \<and> pending_updates m tid = Some buf \<longrightarrow>
      length buf \<le> 10 \<and> (\<forall>u\<in>set buf. \<not> is_heartbeat u)) \<and>
   (map_of (active_connections m) tid = None \<and>
    10 < length (filter (\<lambda>u. \<not> is_heartbeat u) (map snd cus)) \<longrightarrow>
      (\<exists>m'. emit_all tid cus m = Inr m' \<and>
            pending_updates m' tid =
              Some (last10 (filter (\<lambda>u. \<not> is_heartbeat u) (map snd cus))))) \<and>
   (\<exists>m'. emit_all ''T'' (map (\<lambda>n. (open_channel, progress_no n)) [1..15]) manager_init = Inr m' \<and>
         pending_updates m' ''T'' = Some (map progress_no [6..15]))"
proof (intro conjI impI)
  assume "reachable_hub m \<and> pending_updates m tid = Some buf"
  then have "buffer_ok m" and "pending_updates m tid = Some buf"
    by (simp_all add: reachable_hub_buffer_ok)
  then show "length buf \<le> 10" and "\<forall>u\<in>set buf. \<not> is_heartbeat u"
    by (auto simp: buffer_ok_def)
next
  let ?new = "filter (\<lambda>u. \<not> is_heartbeat u) (map snd cus)"
  assume h: "map_of (active_connections m) tid = None \<and> 10 < length ?new"
  then have long: "10 \<le> length ?new" by simp
  from h have nn: "?new \<noteq> []" by (cases ?new) simp_all
  then have ne: "cus \<noteq> []" by (cases cus) simp_all
  from h emit_all_unregistered [of m tid cus] obtain m' where
    r: "emit_all tid cus m = Inr m'" and
    p: "cus \<noteq> [] \<longrightarrow> pending_updates m' tid =
          Some (if ?new = [] then (case pending_updates m tid of None \<Rightarrow> [] | Some l \<Rightarrow> l)
                else last10 ((case pending_updates m tid of None \<Rightarrow> [] | Some l \<Rightarrow> l) @ ?new))"
    by blast
  from p ne nn long have "pending_updates m' tid = Some (last10 ?new)"
    by (simp add: last10_append_long)
  with r show "\<exists>m'. emit_all tid cus m = Inr m' \<and> pending_updates m' tid = Some (last10 ?new)"
    by blast
next
  show "\<exists>m'. emit_all ''T'' (map (\<lambda>n. (open_channel, progress_no n)) [1..15]) manager_init = Inr m' \<and>
         pending_updates m' ''T'' = Some (map progress_no [6..15])"
    by (rule fifteen_emitted)
qed

theorem pending_buffer_bounded_witness:
  "\<exists>m'. emit_all ''T'' (map (\<lambda>n. (open_channel, progress_no n)) [1..15]) manager_init = Inr m' \<and>
        reachable_hub m' \<and> pending_updates m' ''T'' = Some (map progress_no [6..15]) \<and>
        length (map progress_no [6..15]) \<le> 10 \<and>
        (\<forall>u\<in>set (map progress_no [6..15]). \<not> is_heartbeat u) \<and>
        map_of (active_connections manager_init) ''T'' = None \<and>
        10 < length (filter (\<lambda>u. \<not> is_heartbeat u)
                       (map snd (map (\<lambda>n. (open_channel, progress_no n)) [1..15]))) \<and>
        pending_updates m' ''T'' =
          Some (last10 (filter (\<lambda>u. \<not> is_heartbeat u)
                          (map snd (map (\<lambda>n. (open_channel, progress_no n)) [1..15]))))"
proof -
  let ?cus = "map (\<lambda>n. (open_channel, progress_no n)) [1..15]"
  let ?new = "filter (\<lambda>u. \<not> is_heartbeat u) (map snd ?cus)"
  have u: "map_of (active_connections manager_init) ''T'' = None"
    by (simp add: manager_init_def)
  have f: "?new = map progress_no [1..15]"
    by (simp add: comp_def)
  have long: "10 < length ?new" unfolding f by simp
  from pending_buffer_bounded [of manager_init "''T''" "[]" ?cus] u long obtain m' where
    r: "emit_all ''T'' ?cus manager_init = Inr m'" and
    p: "pending_updates m' ''T'' = Some (last10 ?new)"
    by blast
  have reach: "reachable_hub m'" using hub_init r by (rule reachable_emit_all)
  have p': "pending_updates m' ''T'' = Some (map progress_no [6..15])"
    using p unfolding f by (simp only: last10_map last10_upto_15)
  from pending_buffer_bounded [of m' "''T''" "map progress_no [6..15]" "[]"] reach p'
  have "length (map progress_no [6..15]) \<le> 10 \<and>
        (\<forall>u\<in>set (map progress_no [6..15]). \<not> is_heartbeat u)"
    by blast
  with r reach p p' u long show ?thesis by blast
qed

text \<open>
  C7: \<open>send_progress_update\<close> always returns normally. When no socket is registered for
  the task, or the socket is not in state CONNECTED, or the send raises, the update,
  unless it is a heartbeat, is appended to the pending list of the task (cut to its last
  ten), nothing is delivered, no socket is registered for the task afterwards, and the
  other tasks keep their pending lists and registrations.
\<close>

theorem emit_falls_back_to_buffer:
  "(\<exists>m'. send_progress_update ch tid data m = Inr m') \<and>
   (map_of (active_connections m) tid = None \<or> client_state_name ch \<noteq> ''CONNECTED'' \<or>
      send_raises ch \<longrightarrow>
      (\<exists>m'. send_progress_update ch tid data m = Inr m' \<and>
            pending_updates m' tid =
              Some (if is_heartbeat data
                    then (case pending_updates m tid of None \<Rightarrow> [] | Some l \<Rightarrow> l)
                    else last10 ((case pending_updates m tid of None \<Rightarrow> [] | Some l \<Rightarrow> l) @ [data])) \<and>
            (\<forall>t. t \<noteq> tid \<longrightarrow> pending_updates m' t = pending_updates m t) \<and>
            map_of (active_connections m') tid = None \<and>
            (\<forall>t. t \<noteq> tid \<longrightarrow> map_of (active_connections m') t = map_of (active_connections m) t) \<and>
            wire m' = wire m))"
proof (intro conjI impI)
  show "\<exists>m'. send_progress_update ch tid data m = Inr m'"
    by (simp add: send_progress_update_def split: option.split sum.split)
next
  assume h: "map_of (active_connections m) tid = None \<or> client_state_name ch \<noteq> ''CONNECTED'' \<or>
      send_raises ch"
  let ?s = "store_pending_update tid data m"
  have "send_progress_update ch tid data m = Inr ?s \<and> map_of (active_connections m) tid = None \<or>
        send_progress_update ch tid data m = Inr (disconnect tid ?s)"
  proof (cases "map_of (active_connections m) tid")
    case None
    then show ?thesis by (simp add: send_unregistered)
  next
    case (Some ws)
    with h show ?thesis by (simp add: send_failing)
  qed
  then show "\<exists>m'. send_progress_update ch tid data m = Inr m' \<and>
            pending_updates m' tid =
              Some (if is_heartbeat data
                    then (case pending_updates m tid of None \<Rightarrow> [] | Some l \<Rightarrow> l)
                    else last10 ((case pending_updates m tid of None \<Rightarrow> [] | Some l \<Rightarrow> l) @ [data])) \<and>
            (\<forall>t. t \<noteq> tid \<longrightarrow> pending_updates m' t = pending_updates m t) \<and>
            map_of (active_connections m') tid = None \<and>
            (\<forall>t. t \<noteq> tid \<longrightarrow> map_of (active_connections m') t = map_of (active_connections m) t) \<and>
            wire m' = wire m"
    by (elim disjE conjE) (simp_all add: pending_store active_disconnect)
qed

theorem emit_falls_back_to_buffer_witness:
  "(\<exists>m'. send_progress_update open_channel ''T'' (progress_no 1) manager_init = Inr m' \<and>
         pending_updates m' ''T'' = Some [progress_no 1] \<and>
         map_of (active_connections m') ''T'' = None) \<and>
   (\<exists>m'. send_progress_update broken_channel ''T'' (progress_no 1)
            (manager_init\<lparr>active_connections := [(''T'', 7)]\<rparr>) = Inr m' \<and>
         pending_updates m' ''T'' = Some [progress_no 1] \<and>
         map_of (active_connections m') ''T'' = None \<and> wire m' = [])"
proof -
  let ?m = "manager_init\<lparr>active_connections := [(''T'', 7)]\<rparr>"
  have h1: "map_of (active_connections manager_init) ''T'' = None \<or>
            client_state_name open_channel \<noteq> ''CONNECTED'' \<or> send_raises open_channel"
    by (simp add: manager_init_def)
  have h2: "map_of (active_connections ?m) ''T'' = None \<or>
            client_state_name broken_channel \<noteq> ''CONNECTED'' \<or> send_raises broken_channel"
    by (simp add: broken_channel_def)
  from emit_falls_back_to_buffer [where ch = open_channel and tid = "''T''" and
      data = "progress_no 1" and m = manager_init] h1
  obtain m1 where
    r1: "send_progress_update open_channel ''T'' (progress_no 1) manager_init = Inr m1" and
    p1: "pending_updates m1 ''T'' =
           Some (if is_heartbeat (progress_no 1)
                 then (case pending_updates manager_init ''T'' of None \<Rightarrow> [] | Some l \<Rightarrow> l)
                 else last10 ((case pending_updates manager_init ''T'' of None \<Rightarrow> []
                               | Some l \<Rightarrow> l) @ [progress_no 1]))" and
    a1: "map_of (active_connections m1) ''T'' = None"
    by blast
  from emit_falls_back_to_buffer [where ch = broken_channel and tid = "''T''" and
      data = "progress_no 1" and m = ?m] h2
  obtain m2 where
    r2: "send_progress_update broken_channel ''T'' (progress_no 1) ?m = Inr m2" and
    p2: "pending_updates m2 ''T'' =
           Some (if is_heartbeat (progress_no 1)
                 then (case pending_updates ?m ''T'' of None \<Rightarrow> [] | Some l \<Rightarrow> l)
                 else last10 ((case pending_updates ?m ''T'' of None \<Rightarrow> []
                               | Some l \<Rightarrow> l) @ [progress_no 1]))" and
    a2: "map_of (active_connections m2) ''T'' = None" and
    w2: "wire m2 = wire ?m"
    by blast
  have "pending_updates m1 ''T'' = Some [progress_no 1]"
    using p1 by (simp add: manager_init_def last10_def)
  moreover have "pending_updates m2 ''T'' = Some [progress_no 1]"
    using p2 by (simp add: manager_init_def last10_def)
  moreover have "wire m2 = []" using w2 by (simp add: manager_init_def)
  ultimately show ?thesis using r1 a1 r2 a2 by blast
qed

text \<open>When no send raises, \<open>connect\<close> replays the whole pending list in order and deletes it.\<close>

lemma replay_all_sent:
  "\<forall>i. \<not> send_raises (chs i) \<Longrightarrow>
   replay chs i ws us m = m\<lparr>wire := wire m @ map (Pair ws) us\<rparr>"
  by (induction us arbitrary: i m) (simp_all add: send_text_def)

lemma connect_replays_all:
  assumes "\<forall>i. \<not> send_raises (chs i)"
  shows "connect True chs ws tid m =
           Inr (m\<lparr>active_connections := AList.update tid ws (active_connections m),
                  pending_updates := (pending_updates m)(tid := None),
                  wire := wire m @ map (Pair ws)
                            (case pending_updates m tid of None \<Rightarrow> [] | Some ups \<Rightarrow> ups)\<rparr>)"
proof (cases "pending_updates m tid")
  case None
  then have "(pending_updates m)(tid := None) = pending_updates m" by auto
  with None show ?thesis by (simp add: connect_def)
next
  case (Some ups)
  then show ?thesis using assms by (simp add: connect_def replay_all_sent)
qed



text \<open>
  C3 at a failing input: three updates are pending and the second send of the replay
  raises. \<open>connect\<close> returns normally with the socket registered, only the first update
  was delivered, and the pending list is deleted all the same, so the second and third
  updates are lost although they were never replayed.
\<close>

theorem connect_drops_unsent_updates:
  "(case connect True second_send_fails 7 ''T'' three_pending of
      Inl e \<Rightarrow> False
    | Inr m' \<Rightarrow> wire m' = [(7, progress_no 1)] \<and> pending_updates m' ''T'' = None \<and>
               map_of (active_connections m') ''T'' = Some 7)"
  by (simp add: connect_def three_pending_def manager_init_def second_send_fails_def
                send_text_def open_channel_def broken_channel_def)

section \<open>Properties of the worker's writes to the task entry\<close>

lemmas worker_defs =
  process_excel_background_def processing_steps_def new_task_def set_status_def
  set_progress_def update_completed_def update_failed_def

text \<open>The status and the progress along a run that succeeds and along one that fails.\<close>

lemma good_run_trace:
  "map (\<lambda>t. (status t, progress t))
       (trace (process_excel_background good_env ''T'') (new_task ''in.xlsx'' ''t0'')) =
     [(''processing'', 0), (''processing'', 0), (''processing'', 0), (''processing'', 5),
      (''processing'', 5), (''processing'', 5), (''processing'', 30), (''processing'', 30),
      (''processing'', 40), (''processing'', 40), (''processing'', 50), (''processing'', 50),
      (''processing'', 70), (''processing'', 70), (''processing'', 85), (''processing'', 85),
      (''processing'', 95), (''processing'', 95), (''processing'', 95), (''completed'', 100)]"
  by (simp add: worker_defs good_env_def)

lemma bad_run_trace:
  "map (\<lambda>t. (status t, progress t))
       (trace (process_excel_background bad_env ''T'') (new_task ''in.xlsx'' ''t0'')) =
     [(''processing'', 0), (''processing'', 0), (''processing'', 0), (''processing'', 5),
      (''processing'', 5), (''processing'', 5), (''processing'', 30), (''processing'', 30),
      (''processing'', 40), (''processing'', 40), (''processing'', 50), (''processing'', 50),
      (''processing'', 70), (''processing'', 70), (''processing'', 85), (''processing'', 85),
      (''processing'', 95), (''processing'', 95), (''processing'', 95), (''failed'', 95)]"
  by (simp add: worker_defs bad_env_def)





section \<open>Properties of the observer endpoint\<close>








end
